theory Spec2Isabelle
  imports Main "HOL-Library.Word"
begin

section \<open>Surfaces and rectangles\<close>

text \<open>
  A pygame surface, as far as \<^verbatim>\<open>UIImage\<close> looks at it: its pixel dimensions
  (\<^verbatim>\<open>get_width()\<close>, \<^verbatim>\<open>get_height()\<close>, \<^verbatim>\<open>get_size()\<close>) and its RGBA pixels in
  row-major order, each channel one byte.
\<close>

type_synonym pixel = "8 word \<times> 8 word \<times> 8 word \<times> 8 word"

record surface =
  get_width :: int
  get_height :: int
  pixels :: "pixel list"

definition get_size :: "surface \<Rightarrow> int \<times> int" where
  "get_size s = (get_width s, get_height s)"

text \<open>
  \<^verbatim>\<open>pygame.Rect\<close>: only \<^verbatim>\<open>width\<close>, \<^verbatim>\<open>height\<close> and \<^verbatim>\<open>size\<close> are read by
  \<^verbatim>\<open>UIImage\<close>; the position is left out.
\<close>

record rect =
  width :: int
  height :: int

definition rect_size :: "rect \<Rightarrow> int \<times> int" where
  "rect_size r = (width r, height r)"

text \<open>A pixel is alpha-premultiplied when no colour channel exceeds its alpha.\<close>

definition premultiplied_pixel :: "pixel \<Rightarrow> bool" where
  "premultiplied_pixel p = (case p of (r, g, b, a) \<Rightarrow> r \<le> a \<and> g \<le> a \<and> b \<le> a)"

definition is_premultiplied :: "surface \<Rightarrow> bool" where
  "is_premultiplied s = list_all premultiplied_pixel (pixels s)"

section \<open>Alpha premultiplication\<close>

text \<open>
  Modelled from the spec: \<^verbatim>\<open>premul_alpha_surface\<close> of \<^verbatim>\<open>pygame_gui.core.utility\<close> is
  imported by \<^verbatim>\<open>ui_image.py\<close> but its code is not among the sources. The spec: each RGB
  channel is multiplied by its alpha fraction, a pixel (R,G,B,A) becoming
  (R*A/255, G*A/255, B*A/255, A); the division is the integer one.
\<close>

definition premul_channel :: "8 word \<Rightarrow> 8 word \<Rightarrow> 8 word" where
  "premul_channel c a = of_nat (unat c * unat a div 255)"

definition premul_pixel :: "pixel \<Rightarrow> pixel" where
  "premul_pixel p =
     (case p of (r, g, b, a) \<Rightarrow> (premul_channel r a, premul_channel g a, premul_channel b a, a))"

definition premul_alpha_surface :: "surface \<Rightarrow> surface" where
  "premul_alpha_surface s = s\<lparr>pixels := map premul_pixel (pixels s)\<rparr>"

section \<open>The base element and the library\<close>

datatype error = AttributeError | ValueError

text \<open>
  The attributes of the base class \<^verbatim>\<open>UIElement\<close> that \<^verbatim>\<open>UIImage\<close> reads:
  \<^verbatim>\<open>self.rect\<close>, \<^verbatim>\<open>self.image\<close> and \<^verbatim>\<open>self._pre_clipped_image\<close>. Whatever else the
  base class keeps is the field \<open>hidden\<close>.
\<close>

record 'x ui_element =
  rect :: rect
  image_surf :: "surface option"
  pre_clipped_image :: "surface option"
  hidden :: 'x

text \<open>
  What \<^verbatim>\<open>ui_image.py\<close> calls and does not define is a parameter of the model:
  \<^verbatim>\<open>Surface.convert_alpha\<close> and \<^verbatim>\<open>pygame.transform.smoothscale\<close> of pygame (the
  latter may raise), and \<^verbatim>\<open>UIElement.set_dimensions\<close> and \<^verbatim>\<open>UIElement._set_image\<close> of
  the base class, which act on the base attributes only.
\<close>

record 'x env =
  convert_alpha :: "surface \<Rightarrow> surface"
  smoothscale :: "surface \<Rightarrow> int \<times> int \<Rightarrow> error + surface"
  UIElement_set_dimensions :: "int \<times> int \<Rightarrow> 'x ui_element \<Rightarrow> 'x ui_element"
  UIElement_set_image :: "surface \<Rightarrow> 'x ui_element \<Rightarrow> 'x ui_element"

section \<open>UIImage\<close>

text \<open>
  \<^verbatim>\<open>class UIImage(UIElement)\<close>: the state of the base class and the one attribute the
  subclass adds, \<^verbatim>\<open>self.original_image\<close>. The base class's methods cannot reach the
  latter.
\<close>

record 'x ui_image =
  element :: "'x ui_element"
  original_image :: "surface option"

text \<open>
  A method either returns, with the new state (\<open>Inr\<close>), or raises, with the state as the
  raise leaves it (\<open>Inl\<close>).
\<close>

type_synonym 'x outcome = "(error \<times> 'x ui_image) + 'x ui_image"

definition final_state :: "'x outcome \<Rightarrow> 'x ui_image" where
  "final_state r = (case r of Inl (e, w) \<Rightarrow> w | Inr w \<Rightarrow> w)"

text \<open>
  \<^verbatim>\<open>set_dimensions\<close>, lines 55 to 72, for dimensions that are a pair of integers.
  \<^verbatim>\<open>self.image.get_size()\<close> raises on \<^verbatim>\<open>None\<close>. The second \<open>None\<close> branch on the
  original is never taken: the lines before it have filled the original.
\<close>

definition set_dimensions :: "'x env \<Rightarrow> int \<times> int \<Rightarrow> 'x ui_image \<Rightarrow> 'x outcome" where
  "set_dimensions E dimensions self =
     (let self1 = self\<lparr>element := UIElement_set_dimensions E dimensions (element self)\<rparr> in
      case image_surf (element self1) of
        None \<Rightarrow> Inl (AttributeError, self1)
      | Some img \<Rightarrow>
          if rect_size (rect (element self1)) \<noteq> get_size img then
            let self2 =
              (case original_image self1 of
                 None \<Rightarrow>
                   (case pre_clipped_image (element self1) of
                      Some pre \<Rightarrow> self1\<lparr>original_image := Some pre\<rparr>
                    | None \<Rightarrow> self1\<lparr>original_image := Some img\<rparr>)
               | Some orig \<Rightarrow> self1)
            in
              (case original_image self2 of
                 None \<Rightarrow> Inl (AttributeError, self2)
               | Some orig \<Rightarrow>
                   (case smoothscale E orig (rect_size (rect (element self2))) of
                      Inl err \<Rightarrow> Inl (err, self2)
                    | Inr scaled \<Rightarrow>
                        Inr (self2\<lparr>element := UIElement_set_image E scaled (element self2)\<rparr>)))
          else Inr self1)"

text \<open>
  The local \<^verbatim>\<open>image_surface\<close> of \<^verbatim>\<open>set_image\<close>, lines 88 to 90: the new image
  converted, and premultiplied unless the caller says it already is.
\<close>

definition image_surface :: "'x env \<Rightarrow> surface \<Rightarrow> bool \<Rightarrow> surface" where
  "image_surface E new_image image_is_alpha_premultiplied =
     (let converted = convert_alpha E new_image in
      if \<not> image_is_alpha_premultiplied then premul_alpha_surface converted else converted)"

text \<open>
  \<^verbatim>\<open>set_image\<close>, lines 74 to 96. \<^verbatim>\<open>new_image.convert_alpha()\<close> raises on \<^verbatim>\<open>None\<close>.
\<close>

definition set_image :: "'x env \<Rightarrow> surface option \<Rightarrow> bool \<Rightarrow> 'x ui_image \<Rightarrow> 'x outcome" where
  "set_image E new_image image_is_alpha_premultiplied self =
     (case new_image of
        None \<Rightarrow> Inl (AttributeError, self)
      | Some new \<Rightarrow>
          let surf = image_surface E new image_is_alpha_premultiplied in
          if get_width surf \<noteq> width (rect (element self)) \<or>
             get_height surf \<noteq> height (rect (element self)) then
            let self1 = self\<lparr>original_image := Some surf\<rparr> in
            (case smoothscale E surf (rect_size (rect (element self1))) of
               Inl err \<Rightarrow> Inl (err, self1)
             | Inr scaled \<Rightarrow>
                 Inr (self1\<lparr>element := UIElement_set_image E scaled (element self1)\<rparr>))
          else Inr (self\<lparr>element := UIElement_set_image E surf (element self)\<rparr>))"

text \<open>
  \<^verbatim>\<open>__init__\<close>, lines 28 to 53. The argument \<open>base\<close> is the state of the base class
  after \<^verbatim>\<open>super().__init__\<close> and \<^verbatim>\<open>_create_valid_ids\<close>, whose rectangle is the
  element's.
\<close>

definition UIImage_init :: "'x env \<Rightarrow> 'x ui_element \<Rightarrow> surface option \<Rightarrow> bool \<Rightarrow> 'x outcome" where
  "UIImage_init E base image_surface_arg image_is_alpha_premultiplied =
     set_image E image_surface_arg image_is_alpha_premultiplied
       \<lparr>element = base, original_image = None\<rparr>"

section \<open>Sequences of calls\<close>

datatype call = Set_image "surface option" bool | Set_dimensions "int \<times> int"

fun perform :: "'x env \<Rightarrow> call \<Rightarrow> 'x ui_image \<Rightarrow> 'x outcome" where
  "perform E (Set_image new_image flag) w = set_image E new_image flag w"
| "perform E (Set_dimensions dimensions) w = set_dimensions E dimensions w"

text \<open>The calls one after the other; the first raise ends the run.\<close>

fun run :: "'x env \<Rightarrow> call list \<Rightarrow> 'x ui_image \<Rightarrow> 'x outcome" where
  "run E [] w = Inr w"
| "run E (c # cs) w = (case perform E c w of Inl r \<Rightarrow> Inl r | Inr w' \<Rightarrow> run E cs w')"

text \<open>
  A call tells the truth about its bitmap when the flag
  \<^verbatim>\<open>image_is_alpha_premultiplied\<close> is set only for a bitmap that is premultiplied.
\<close>

fun truthful :: "'x env \<Rightarrow> call \<Rightarrow> bool" where
  "truthful E (Set_image (Some new) True) = is_premultiplied (convert_alpha E new)"
| "truthful E (Set_image new_image flag) = True"
| "truthful E (Set_dimensions dimensions) = True"

section \<open>What the widget keeps\<close>

definition opt_premultiplied :: "surface option \<Rightarrow> bool" where
  "opt_premultiplied so = (case so of None \<Rightarrow> True | Some s \<Rightarrow> is_premultiplied s)"

definition element_premultiplied :: "'x ui_element \<Rightarrow> bool" where
  "element_premultiplied e =
     (opt_premultiplied (image_surf e) \<and> opt_premultiplied (pre_clipped_image e))"

definition all_premultiplied :: "'x ui_image \<Rightarrow> bool" where
  "all_premultiplied w =
     (element_premultiplied (element w) \<and> opt_premultiplied (original_image w))"

text \<open>The displayed bitmap is there and has the size of the rectangle.\<close>

definition displayed_fits :: "'x ui_image \<Rightarrow> bool" where
  "displayed_fits w =
     (case image_surf (element w) of
        None \<Rightarrow> False
      | Some img \<Rightarrow> get_size img = rect_size (rect (element w)))"

definition displayed_premultiplied :: "'x ui_image \<Rightarrow> bool" where
  "displayed_premultiplied w =
     (case image_surf (element w) of None \<Rightarrow> False | Some img \<Rightarrow> is_premultiplied img)"

section \<open>Contracts of the parameters\<close>

text \<open>
  pygame documents \<^verbatim>\<open>smoothscale(surface, size)\<close> as returning a surface of the size
  asked for; an averaging filter takes premultiplied pixels to premultiplied pixels.
\<close>

definition scales_to_size :: "'x env \<Rightarrow> bool" where
  "scales_to_size E = (\<forall>s d t. smoothscale E s d = Inr t \<longrightarrow> get_size t = d)"

definition scale_keeps_premultiplied :: "'x env \<Rightarrow> bool" where
  "scale_keeps_premultiplied E =
     (\<forall>s d t. is_premultiplied s \<longrightarrow> smoothscale E s d = Inr t \<longrightarrow> is_premultiplied t)"

text \<open>
  Modelled from the spec: the base class \<^verbatim>\<open>UIElement\<close> of \<^verbatim>\<open>pygame_gui.core\<close> is
  not among the sources. The spec has its resize handling update the rectangle, and the
  bitmap handed to it become the one that is displayed; the pre-clip bitmap is an input
  that the widget does not produce.
\<close>

definition resizes_rect :: "'x env \<Rightarrow> bool" where
  "resizes_rect E =
     (\<forall>d e. rect_size (rect (UIElement_set_dimensions E d e)) = d \<and>
            image_surf (UIElement_set_dimensions E d e) = image_surf e)"

definition installs_image :: "'x env \<Rightarrow> bool" where
  "installs_image E =
     (\<forall>t e. image_surf (UIElement_set_image E t e) = Some t \<and>
            rect (UIElement_set_image E t e) = rect e)"

definition base_keeps_premultiplied :: "'x env \<Rightarrow> bool" where
  "base_keeps_premultiplied E =
     ((\<forall>d e. element_premultiplied e \<longrightarrow>
              element_premultiplied (UIElement_set_dimensions E d e)) \<and>
      (\<forall>t e. is_premultiplied t \<longrightarrow> element_premultiplied e \<longrightarrow>
              element_premultiplied (UIElement_set_image E t e)))"

section \<open>A concrete environment\<close>

text \<open>
  An instance of the parameters, at which the theorems below are applied to concrete
  widgets: a point-sampling scaler that refuses a negative size, the identity as format
  conversion, and a base element that stores the rectangle's size and the bitmap.
\<close>

definition pixel_at :: "surface \<Rightarrow> int \<Rightarrow> int \<Rightarrow> pixel" where
  "pixel_at s x y =
     (let i = nat (y * get_width s + x)
      in if i < length (pixels s) then pixels s ! i else (0, 0, 0, 0))"

definition point_sample :: "surface \<Rightarrow> int \<times> int \<Rightarrow> surface" where
  "point_sample s d =
     (case d of (w, h) \<Rightarrow>
        \<lparr>get_width = w, get_height = h,
         pixels = concat (map (\<lambda>y. map (\<lambda>x.
             pixel_at s (int x * get_width s div w) (int y * get_height s div h))
           [0..<nat w]) [0..<nat h])\<rparr>)"

definition point_scale :: "surface \<Rightarrow> int \<times> int \<Rightarrow> error + surface" where
  "point_scale s d =
     (if fst d < 0 \<or> snd d < 0 then Inl ValueError else Inr (point_sample s d))"

definition plain_set_dimensions :: "int \<times> int \<Rightarrow> unit ui_element \<Rightarrow> unit ui_element" where
  "plain_set_dimensions d e = e\<lparr>rect := \<lparr>width = fst d, height = snd d\<rparr>\<rparr>"

definition plain_set_image :: "surface \<Rightarrow> unit ui_element \<Rightarrow> unit ui_element" where
  "plain_set_image t e = e\<lparr>image_surf := Some t\<rparr>"

definition plain_env :: "unit env" where
  "plain_env =
     \<lparr>convert_alpha = (\<lambda>s. s), smoothscale = point_scale,
      UIElement_set_dimensions = plain_set_dimensions,
      UIElement_set_image = plain_set_image\<rparr>"

text \<open>A base element with the given rectangle size and nothing displayed yet.\<close>

definition fresh_element :: "int \<times> int \<Rightarrow> unit ui_element" where
  "fresh_element d =
     \<lparr>rect = \<lparr>width = fst d, height = snd d\<rparr>, image_surf = None,
      pre_clipped_image = None, hidden = ()\<rparr>"

text \<open>A bitmap of one colour.\<close>

definition solid :: "int \<times> int \<Rightarrow> pixel \<Rightarrow> surface" where
  "solid d p =
     \<lparr>get_width = fst d, get_height = snd d, pixels = replicate (nat (fst d * snd d)) p\<rparr>"

definition white :: pixel where
  "white = (255, 255, 255, 255)"

definition black :: pixel where
  "black = (0, 0, 0, 255)"

text \<open>
  A widget that displays \<open>img\<close> in a rectangle of the size of \<open>img\<close>, with the given
  pre-clip bitmap and original.
\<close>

definition showing :: "surface \<Rightarrow> surface option \<Rightarrow> surface option \<Rightarrow> unit ui_image" where
  "showing img pre orig =
     \<lparr>element = \<lparr>rect = \<lparr>width = get_width img, height = get_height img\<rparr>,
                 image_surf = Some img, pre_clipped_image = pre, hidden = ()\<rparr>,
      original_image = orig\<rparr>"

text \<open>A bitmap of two pixels side by side.\<close>

definition two_tone :: surface where
  "two_tone = \<lparr>get_width = 2, get_height = 1, pixels = [white, black]\<rparr>"

text \<open>A bitmap of two pixels, the first of them translucent.\<close>

definition translucent :: surface where
  "translucent =
     \<lparr>get_width = 2, get_height = 1, pixels = [(200, 100, 50, 128), (255, 255, 255, 255)]\<rparr>"

definition translucent_red :: pixel where
  "translucent_red = (255, 0, 0, 128)"

text \<open>
  A format conversion for the concrete environment: the bitmap arrives with blue first,
  and the canonical order has red first.
\<close>

definition blue_first :: "surface \<Rightarrow> surface" where
  "blue_first s = s\<lparr>pixels := map (\<lambda>(b, g, r, a). (r, g, b, a)) (pixels s)\<rparr>"

section \<open>Premultiplication keeps its promise\<close>

lemma unat_premul_channel: "unat (premul_channel c a) = unat c * unat a div 255"
proof -
  have c: "unat c \<le> 255" using unsigned_less [of c, where 'a = nat] by simp
  have a: "unat a \<le> 255" using unsigned_less [of a, where 'a = nat] by simp
  have "unat c * unat a \<le> 255 * 255" using c a by (rule mult_le_mono)
  then have "unat c * unat a div 255 \<le> 255" by simp
  then have "unat c * unat a div 255 < 2 ^ LENGTH(8)" by simp
  then show ?thesis unfolding premul_channel_def by (rule of_nat_inverse [OF refl])
qed

lemma premul_channel_le: "premul_channel c a \<le> a"
proof -
  have c: "unat c \<le> 255" using unsigned_less [of c, where 'a = nat] by simp
  have "unat c * unat a \<le> 255 * unat a" using c by simp
  then have "unat c * unat a div 255 \<le> 255 * unat a div 255" by (rule div_le_mono)
  then have "unat c * unat a div 255 \<le> unat a" by simp
  then show ?thesis by (simp add: word_le_nat_alt unat_premul_channel)
qed

lemma premul_pixel_premultiplied: "premultiplied_pixel (premul_pixel p)"
  by (cases p) (simp add: premultiplied_pixel_def premul_pixel_def premul_channel_le)

lemma premul_alpha_surface_premultiplied: "is_premultiplied (premul_alpha_surface s)"
  by (simp add: is_premultiplied_def premul_alpha_surface_def list_all_iff premul_pixel_premultiplied)

lemma get_size_premul: "get_size (premul_alpha_surface s) = get_size s"
  by (simp add: get_size_def premul_alpha_surface_def)

lemma pixels_premul:
  "length (pixels (premul_alpha_surface s)) = length (pixels s)"
  "i < length (pixels s) \<Longrightarrow> pixels (premul_alpha_surface s) ! i = premul_pixel (pixels s ! i)"
  by (simp_all add: premul_alpha_surface_def)

lemma byte_of_unat: "unat x = n \<Longrightarrow> x = of_nat n" for x :: "8 word"
  by auto

section \<open>The branches of the two methods\<close>

lemma get_size_eq_iff:
  "(get_size s \<noteq> rect_size r) = (get_width s \<noteq> width r \<or> get_height s \<noteq> height r)"
  by (auto simp add: get_size_def rect_size_def)

lemma set_image_None: "set_image E None flag w = Inl (AttributeError, w)"
  by (simp add: set_image_def)

lemma set_image_same_size:
  assumes "get_size (image_surface E new flag) = rect_size (rect (element w))"
  shows "set_image E (Some new) flag w =
           Inr (w\<lparr>element := UIElement_set_image E (image_surface E new flag) (element w)\<rparr>)"
  using assms by (simp add: set_image_def get_size_def rect_size_def)

lemma set_image_other_size:
  assumes "get_size (image_surface E new flag) \<noteq> rect_size (rect (element w))"
  shows "set_image E (Some new) flag w =
           (case smoothscale E (image_surface E new flag) (rect_size (rect (element w))) of
              Inl err \<Rightarrow> Inl (err, w\<lparr>original_image := Some (image_surface E new flag)\<rparr>)
            | Inr scaled \<Rightarrow>
                Inr \<lparr>element = UIElement_set_image E scaled (element w),
                     original_image = Some (image_surface E new flag)\<rparr>)"
  using assms by (auto simp add: set_image_def get_size_def rect_size_def Let_def split: sum.splits)

lemma set_dimensions_no_image:
  assumes "image_surf (UIElement_set_dimensions E d (element w)) = None"
  shows "set_dimensions E d w =
           Inl (AttributeError, w\<lparr>element := UIElement_set_dimensions E d (element w)\<rparr>)"
  using assms by (simp add: set_dimensions_def)

lemma set_dimensions_same_size:
  assumes "image_surf (UIElement_set_dimensions E d (element w)) = Some img"
    and "rect_size (rect (UIElement_set_dimensions E d (element w))) = get_size img"
  shows "set_dimensions E d w = Inr (w\<lparr>element := UIElement_set_dimensions E d (element w)\<rparr>)"
  using assms by (simp add: set_dimensions_def)

lemma set_dimensions_other_size:
  assumes "image_surf (UIElement_set_dimensions E d (element w)) = Some img"
    and "rect_size (rect (UIElement_set_dimensions E d (element w))) \<noteq> get_size img"
    and "src = (case original_image w of
                  Some orig \<Rightarrow> orig
                | None \<Rightarrow> (case pre_clipped_image (UIElement_set_dimensions E d (element w)) of
                             Some pre \<Rightarrow> pre | None \<Rightarrow> img))"
  shows "set_dimensions E d w =
           (case smoothscale E src (rect_size (rect (UIElement_set_dimensions E d (element w)))) of
              Inl err \<Rightarrow>
                Inl (err, \<lparr>element = UIElement_set_dimensions E d (element w),
                          original_image = Some src\<rparr>)
            | Inr scaled \<Rightarrow>
                Inr \<lparr>element = UIElement_set_image E scaled (UIElement_set_dimensions E d (element w)),
                     original_image = Some src\<rparr>)"
  using assms
  by (cases w) (auto simp add: set_dimensions_def Let_def split: sum.splits option.splits)

section \<open>The concrete environment meets the contracts\<close>

lemma plain_env_simps [simp]:
  "convert_alpha plain_env = (\<lambda>s. s)"
  "smoothscale plain_env = point_scale"
  "UIElement_set_dimensions plain_env = plain_set_dimensions"
  "UIElement_set_image plain_env = plain_set_image"
  by (simp_all add: plain_env_def)

lemma get_size_point_sample [simp]: "get_size (point_sample s d) = d"
  by (cases d) (simp add: point_sample_def get_size_def)

lemma get_size_solid [simp]: "get_size (solid d p) = d"
  by (simp add: solid_def get_size_def)

lemma plain_installs_image: "installs_image plain_env"
  by (simp add: installs_image_def plain_set_image_def)

lemma plain_resizes_rect: "resizes_rect plain_env"
  by (simp add: resizes_rect_def plain_set_dimensions_def rect_size_def)

lemma plain_scales_to_size: "scales_to_size plain_env"
  by (auto simp add: scales_to_size_def point_scale_def split: if_splits)

section \<open>What happens to the original\<close>

lemma final_state_simps [simp]:
  "final_state (Inl (e, w)) = w" "final_state (Inr w) = w"
  by (simp_all add: final_state_def)

lemma set_dimensions_keeps_original:
  assumes "original_image w = Some orig"
  shows "original_image (final_state (set_dimensions E d w)) = Some orig"
proof (cases "image_surf (UIElement_set_dimensions E d (element w))")
  case None
  then show ?thesis using assms by (simp add: set_dimensions_no_image)
next
  case (Some img)
  show ?thesis
  proof (cases "rect_size (rect (UIElement_set_dimensions E d (element w))) = get_size img")
    case True
    with Some show ?thesis using assms by (simp add: set_dimensions_same_size)
  next
    case False
    have src: "orig = (case original_image w of
                  Some orig \<Rightarrow> orig
                | None \<Rightarrow> (case pre_clipped_image (UIElement_set_dimensions E d (element w)) of
                             Some pre \<Rightarrow> pre | None \<Rightarrow> img))"
      using assms by simp
    show ?thesis
      by (simp add: set_dimensions_other_size [OF Some False src] split: sum.splits)
  qed
qed

lemma set_image_original:
  "original_image (final_state (set_image E new flag w)) = original_image w \<or>
   (\<exists>b. new = Some b \<and>
        get_size (image_surface E b flag) \<noteq> rect_size (rect (element w)) \<and>
        original_image (final_state (set_image E new flag w)) = Some (image_surface E b flag))"
proof (cases new)
  case None
  then show ?thesis by (simp add: set_image_None)
next
  case (Some b)
  show ?thesis
  proof (cases "get_size (image_surface E b flag) = rect_size (rect (element w))")
    case True
    then show ?thesis using Some by (simp add: set_image_same_size)
  next
    case False
    then show ?thesis using Some by (simp add: set_image_other_size split: sum.splits)
  qed
qed

lemma perform_original_set:
  assumes "original_image w \<noteq> None"
  shows "original_image (final_state (perform E c w)) \<noteq> None"
proof (cases c)
  case (Set_image new flag)
  then show ?thesis using assms set_image_original [of E new flag w] by auto
next
  case (Set_dimensions d)
  then show ?thesis using assms set_dimensions_keeps_original [of w _ E d] by auto
qed

lemma run_original_set:
  "original_image w \<noteq> None \<Longrightarrow> original_image (final_state (run E cs w)) \<noteq> None"
proof (induction cs arbitrary: w)
  case Nil
  then show ?case by simp
next
  case (Cons c cs)
  show ?case
  proof (cases "perform E c w")
    case (Inl r)
    then show ?thesis using perform_original_set [OF Cons.prems, of E c] by simp
  next
    case (Inr w')
    then have "original_image w' \<noteq> None"
      using perform_original_set [OF Cons.prems, of E c] by simp
    then show ?thesis using Inr Cons.IH by simp
  qed
qed

lemma run_resizes_keep_original:
  "original_image w = Some orig \<Longrightarrow> run E (map Set_dimensions ds) w = Inr w1 \<Longrightarrow>
   original_image w1 = Some orig"
proof (induction ds arbitrary: w)
  case Nil
  then show ?case by simp
next
  case (Cons d ds)
  from Cons.prems(2) obtain w' where step: "set_dimensions E d w = Inr w'"
    and rest: "run E (map Set_dimensions ds) w' = Inr w1"
    by (auto split: sum.splits)
  have "original_image w' = Some orig"
    using set_dimensions_keeps_original [OF Cons.prems(1), of E d] step by simp
  then show ?case using rest by (rule Cons.IH)
qed

section \<open>When a method returns\<close>

lemma scales_to_sizeD:
  "scales_to_size E \<Longrightarrow> smoothscale E s d = Inr t \<Longrightarrow> get_size t = d"
  unfolding scales_to_size_def by blast

lemma resizes_rectD:
  assumes "resizes_rect E"
  shows "rect_size (rect (UIElement_set_dimensions E d e)) = d"
    and "image_surf (UIElement_set_dimensions E d e) = image_surf e"
  using assms unfolding resizes_rect_def by blast+

lemma installs_imageD:
  assumes "installs_image E"
  shows "image_surf (UIElement_set_image E t e) = Some t"
    and "rect (UIElement_set_image E t e) = rect e"
  using assms unfolding installs_image_def by blast+

lemma set_dimensions_returns [consumes 1, case_names same other]:
  assumes "set_dimensions E d w = Inr w'"
  obtains (same) img where
      "image_surf (UIElement_set_dimensions E d (element w)) = Some img"
      "rect_size (rect (UIElement_set_dimensions E d (element w))) = get_size img"
      "w' = w\<lparr>element := UIElement_set_dimensions E d (element w)\<rparr>"
  | (other) img src scaled where
      "image_surf (UIElement_set_dimensions E d (element w)) = Some img"
      "rect_size (rect (UIElement_set_dimensions E d (element w))) \<noteq> get_size img"
      "src = (case original_image w of
                Some orig \<Rightarrow> orig
              | None \<Rightarrow> (case pre_clipped_image (UIElement_set_dimensions E d (element w)) of
                           Some pre \<Rightarrow> pre | None \<Rightarrow> img))"
      "smoothscale E src (rect_size (rect (UIElement_set_dimensions E d (element w)))) = Inr scaled"
      "w' = \<lparr>element = UIElement_set_image E scaled (UIElement_set_dimensions E d (element w)),
             original_image = Some src\<rparr>"
proof (cases "image_surf (UIElement_set_dimensions E d (element w))")
  case None
  with assms show ?thesis by (simp add: set_dimensions_no_image)
next
  case (Some img)
  show ?thesis
  proof (cases "rect_size (rect (UIElement_set_dimensions E d (element w))) = get_size img")
    case True
    with Some assms same show ?thesis by (simp add: set_dimensions_same_size)
  next
    case False
    define src where "src = (case original_image w of
                Some orig \<Rightarrow> orig
              | None \<Rightarrow> (case pre_clipped_image (UIElement_set_dimensions E d (element w)) of
                           Some pre \<Rightarrow> pre | None \<Rightarrow> img))"
    from assms obtain scaled where
      "smoothscale E src (rect_size (rect (UIElement_set_dimensions E d (element w)))) = Inr scaled"
      "w' = \<lparr>element = UIElement_set_image E scaled (UIElement_set_dimensions E d (element w)),
             original_image = Some src\<rparr>"
      by (auto simp add: set_dimensions_other_size [OF Some False src_def] split: sum.splits)
    with Some False src_def other show ?thesis by blast
  qed
qed

lemma set_image_returns [consumes 1, case_names same other]:
  assumes "set_image E new flag w = Inr w'"
  obtains (same) b where
      "new = Some b"
      "get_size (image_surface E b flag) = rect_size (rect (element w))"
      "w' = w\<lparr>element := UIElement_set_image E (image_surface E b flag) (element w)\<rparr>"
  | (other) b scaled where
      "new = Some b"
      "get_size (image_surface E b flag) \<noteq> rect_size (rect (element w))"
      "smoothscale E (image_surface E b flag) (rect_size (rect (element w))) = Inr scaled"
      "w' = \<lparr>element = UIElement_set_image E scaled (element w),
             original_image = Some (image_surface E b flag)\<rparr>"
proof (cases new)
  case None
  with assms show ?thesis by (simp add: set_image_None)
next
  case (Some b)
  show ?thesis
  proof (cases "get_size (image_surface E b flag) = rect_size (rect (element w))")
    case True
    with Some assms same show ?thesis by (simp add: set_image_same_size)
  next
    case False
    with Some assms obtain scaled where
      "smoothscale E (image_surface E b flag) (rect_size (rect (element w))) = Inr scaled"
      "w' = \<lparr>element = UIElement_set_image E scaled (element w),
             original_image = Some (image_surface E b flag)\<rparr>"
      by (auto simp add: set_image_other_size split: sum.splits)
    with Some False other show ?thesis by blast
  qed
qed

lemma set_dimensions_fits:
  assumes "scales_to_size E" and "installs_image E" and "set_dimensions E d w = Inr w'"
  shows "displayed_fits w'"
  using assms(3)
proof (cases rule: set_dimensions_returns)
  case (same img)
  then show ?thesis by (simp add: displayed_fits_def)
next
  case (other img src scaled)
  from assms(1) other(4) have "get_size scaled =
      rect_size (rect (UIElement_set_dimensions E d (element w)))"
    by (rule scales_to_sizeD)
  with assms(2) other(5) show ?thesis
    by (simp add: displayed_fits_def installs_imageD)
qed

lemma set_image_fits:
  assumes "scales_to_size E" and "installs_image E" and "set_image E new flag w = Inr w'"
  shows "displayed_fits w'"
  using assms(3)
proof (cases rule: set_image_returns)
  case (same b)
  with assms(2) show ?thesis by (simp add: displayed_fits_def installs_imageD)
next
  case (other b scaled)
  from assms(1) other(3) have "get_size scaled = rect_size (rect (element w))"
    by (rule scales_to_sizeD)
  with assms(2) other(4) show ?thesis
    by (simp add: displayed_fits_def installs_imageD)
qed

lemma set_dimensions_rect:
  assumes "resizes_rect E" and "installs_image E" and "set_dimensions E d w = Inr w'"
  shows "rect_size (rect (element w')) = d"
  using assms(3)
proof (cases rule: set_dimensions_returns)
  case (same img)
  with assms(1) show ?thesis by (simp add: resizes_rectD)
next
  case (other img src scaled)
  with assms(1,2) show ?thesis by (simp add: resizes_rectD installs_imageD)
qed

lemma set_dimensions_matching:
  assumes "resizes_rect E" and "image_surf (element w) = Some img" and "get_size img = d"
  shows "set_dimensions (E\<lparr>smoothscale := sc, UIElement_set_image := si\<rparr>) d w =
           Inr (w\<lparr>element := UIElement_set_dimensions E d (element w)\<rparr>)"
proof -
  let ?E = "E\<lparr>smoothscale := sc, UIElement_set_image := si\<rparr>"
  have "image_surf (UIElement_set_dimensions ?E d (element w)) = Some img"
    using assms(1,2) by (simp add: resizes_rectD)
  moreover have "rect_size (rect (UIElement_set_dimensions ?E d (element w))) = get_size img"
    using assms(1,3) by (simp add: resizes_rectD)
  ultimately have "set_dimensions ?E d w =
      Inr (w\<lparr>element := UIElement_set_dimensions ?E d (element w)\<rparr>)"
    by (rule set_dimensions_same_size)
  then show ?thesis by simp
qed

section \<open>Resizing in the concrete environment\<close>

lemma plain_resize:
  assumes "get_size img \<noteq> d" and "0 \<le> fst d" and "0 \<le> snd d"
    and "src = (case orig of Some s \<Rightarrow> s | None \<Rightarrow> img)"
  shows "set_dimensions plain_env d (showing img None orig) =
           Inr \<lparr>element = plain_set_image (point_sample src d)
                            (plain_set_dimensions d (element (showing img None orig))),
                original_image = Some src\<rparr>"
  using assms
  by (cases d; cases orig)
    (auto simp add: set_dimensions_def showing_def plain_set_dimensions_def plain_set_image_def
      rect_size_def point_scale_def get_size_def)

lemma plain_resized_shows:
  "\<lparr>element = plain_set_image t (plain_set_dimensions d (element (showing img None orig))),
    original_image = Some src\<rparr> = showing t None (Some src) \<longleftrightarrow> get_size t = d"
  by (cases d) (auto simp add: showing_def plain_set_dimensions_def plain_set_image_def get_size_def)

lemma two_tone_pixels:
  "pixels (point_sample two_tone (2, 1)) = [white, black]"
  "pixels (point_sample (point_sample two_tone (1, 1)) (2, 1)) = [white, white]"
  by (simp_all add: two_tone_def point_sample_def pixel_at_def upt_rec)

section \<open>Premultiplied bitmaps stay premultiplied\<close>

lemma scale_keeps_premultipliedD:
  "scale_keeps_premultiplied E \<Longrightarrow> is_premultiplied s \<Longrightarrow> smoothscale E s d = Inr t \<Longrightarrow>
   is_premultiplied t"
  unfolding scale_keeps_premultiplied_def by blast

lemma base_keeps_premultipliedD:
  assumes "base_keeps_premultiplied E" and "element_premultiplied e"
  shows "element_premultiplied (UIElement_set_dimensions E d e)"
    and "is_premultiplied t \<Longrightarrow> element_premultiplied (UIElement_set_image E t e)"
  using assms unfolding base_keeps_premultiplied_def by blast+

lemma image_surface_premultiplied:
  "truthful E (Set_image (Some new) flag) \<Longrightarrow> is_premultiplied (image_surface E new flag)"
  by (cases flag) (simp_all add: image_surface_def premul_alpha_surface_premultiplied)

lemma set_image_premultiplied:
  assumes "scale_keeps_premultiplied E" and "base_keeps_premultiplied E"
    and "all_premultiplied w" and "truthful E (Set_image new flag)"
    and "set_image E new flag w = Inr w'"
  shows "all_premultiplied w'"
  using assms(5)
proof (cases rule: set_image_returns)
  case (same b)
  then have "is_premultiplied (image_surface E b flag)"
    using assms(4) by (simp add: image_surface_premultiplied)
  then show ?thesis
    using assms(2,3) same(3)
    by (simp add: all_premultiplied_def base_keeps_premultipliedD)
next
  case (other b scaled)
  then have surf: "is_premultiplied (image_surface E b flag)"
    using assms(4) by (simp add: image_surface_premultiplied)
  with assms(1) other(3) have "is_premultiplied scaled"
    by (blast intro: scale_keeps_premultipliedD)
  then show ?thesis
    using assms(2,3) other(4) surf
    by (simp add: all_premultiplied_def base_keeps_premultipliedD opt_premultiplied_def)
qed

lemma set_dimensions_premultiplied:
  assumes "scale_keeps_premultiplied E" and "base_keeps_premultiplied E"
    and "all_premultiplied w" and "set_dimensions E d w = Inr w'"
  shows "all_premultiplied w'"
  using assms(4)
proof (cases rule: set_dimensions_returns)
  case (same img)
  then show ?thesis
    using assms(2,3) by (simp add: all_premultiplied_def base_keeps_premultipliedD)
next
  case (other img src scaled)
  have base: "element_premultiplied (UIElement_set_dimensions E d (element w))"
    using assms(2,3) by (simp add: all_premultiplied_def base_keeps_premultipliedD)
  have src: "is_premultiplied src"
    using base assms(3) other(1,3)
    by (auto simp add: all_premultiplied_def element_premultiplied_def opt_premultiplied_def
        split: option.splits)
  with assms(1) other(4) have "is_premultiplied scaled"
    by (blast intro: scale_keeps_premultipliedD)
  then show ?thesis
    using assms(2) base src other(5)
    by (simp add: all_premultiplied_def base_keeps_premultipliedD opt_premultiplied_def)
qed

lemma displayed_premultipliedI:
  "all_premultiplied w \<Longrightarrow> displayed_fits w \<Longrightarrow> displayed_premultiplied w"
  by (auto simp add: all_premultiplied_def element_premultiplied_def opt_premultiplied_def
      displayed_fits_def displayed_premultiplied_def split: option.splits)

lemma perform_invariant:
  assumes "scales_to_size E" and "scale_keeps_premultiplied E" and "installs_image E"
    and "base_keeps_premultiplied E"
    and "all_premultiplied w" and "truthful E c" and "perform E c w = Inr w'"
  shows "all_premultiplied w' \<and> displayed_fits w'"
proof (cases c)
  case (Set_image new flag)
  with assms show ?thesis
    using set_image_premultiplied [of E w new flag w'] set_image_fits [of E new flag w w']
    by simp
next
  case (Set_dimensions d)
  with assms show ?thesis
    using set_dimensions_premultiplied [of E w d w'] set_dimensions_fits [of E d w w']
    by simp
qed

lemma run_invariant:
  assumes "scales_to_size E" and "scale_keeps_premultiplied E" and "installs_image E"
    and "base_keeps_premultiplied E"
  shows "all_premultiplied w \<Longrightarrow> \<forall>c\<in>set cs. truthful E c \<Longrightarrow> run E cs w = Inr w' \<Longrightarrow>
         all_premultiplied w' \<and> (cs \<noteq> [] \<longrightarrow> displayed_fits w')"
proof (induction cs arbitrary: w)
  case Nil
  then show ?case by simp
next
  case (Cons c cs)
  from Cons.prems(3) obtain w1 where step: "perform E c w = Inr w1"
    and rest: "run E cs w1 = Inr w'"
    by (auto split: sum.splits)
  have w1: "all_premultiplied w1 \<and> displayed_fits w1"
    using assms Cons.prems(1) _ step by (rule perform_invariant) (use Cons.prems(2) in simp)
  then have "all_premultiplied w' \<and> (cs \<noteq> [] \<longrightarrow> displayed_fits w')"
    using Cons.IH [of w1] Cons.prems(2) rest by simp
  moreover have "displayed_fits w'" if "cs = []"
    using that rest w1 by simp
  ultimately show ?case by blast
qed

lemma pixel_at_premultiplied: "is_premultiplied s \<Longrightarrow> premultiplied_pixel (pixel_at s x y)"
  by (simp add: pixel_at_def Let_def is_premultiplied_def list_all_length premultiplied_pixel_def)

lemma point_sample_premultiplied: "is_premultiplied s \<Longrightarrow> is_premultiplied (point_sample s d)"
  by (cases d)
    (auto simp add: point_sample_def is_premultiplied_def [of "\<lparr>get_width = _, get_height = _, pixels = _\<rparr>"]
      list_all_iff pixel_at_premultiplied)

lemma plain_scale_keeps_premultiplied: "scale_keeps_premultiplied plain_env"
  by (auto simp add: scale_keeps_premultiplied_def point_scale_def point_sample_premultiplied
      split: if_splits)

lemma plain_base_keeps_premultiplied: "base_keeps_premultiplied plain_env"
  by (simp add: base_keeps_premultiplied_def element_premultiplied_def plain_set_dimensions_def
      plain_set_image_def opt_premultiplied_def)

lemma plain_replace_same_size:
  assumes "get_size (image_surface plain_env new flag) = d"
  shows "set_image plain_env (Some new) flag \<lparr>element = fresh_element d, original_image = None\<rparr> =
           Inr (showing (image_surface plain_env new flag) None None)"
  using assms
  by (cases d)
    (auto simp add: set_image_def Let_def fresh_element_def showing_def plain_set_image_def
      get_size_def)

lemma run_fits:
  assumes "scales_to_size E" and "installs_image E"
  shows "cs \<noteq> [] \<Longrightarrow> run E cs w = Inr w' \<Longrightarrow> displayed_fits w'"
proof (induction cs arbitrary: w)
  case Nil
  then show ?case by simp
next
  case (Cons c cs)
  from Cons.prems(2) obtain w1 where step: "perform E c w = Inr w1"
    and rest: "run E cs w1 = Inr w'"
    by (auto split: sum.splits)
  have w1: "displayed_fits w1"
  proof (cases c)
    case (Set_image new flag)
    with step assms show ?thesis using set_image_fits [of E new flag w w1] by simp
  next
    case (Set_dimensions d)
    with step assms show ?thesis using set_dimensions_fits [of E d w w1] by simp
  qed
  show ?case
  proof (cases "cs = []")
    case True
    with rest w1 show ?thesis by simp
  next
    case False
    then show ?thesis using rest by (rule Cons.IH)
  qed
qed

lemma blue_first_translucent:
  "premul_alpha_surface (blue_first translucent) =
     \<lparr>get_width = 2, get_height = 1, pixels = [(25, 50, 100, 128), (255, 255, 255, 255)]\<rparr>"
  by (simp add: premul_alpha_surface_def blue_first_def translucent_def premul_pixel_def
      premul_channel_def)

section \<open>Replacing the image\<close>

text \<open>
  C9. Called with \<^verbatim>\<open>None\<close>, \<^verbatim>\<open>set_image\<close> raises at \<^verbatim>\<open>new_image.convert_alpha()\<close>,
  its first statement, with the widget as it was: the original and the displayed bitmap
  are those of before the call.
\<close>

theorem set_image_none_raises:
  "set_image E None flag w = Inl (AttributeError, w) \<and>
   final_state (set_image E None flag w) = w"
  by (simp add: set_image_None final_state_def)

theorem set_image_none_raises_witness:
  "set_image plain_env None False (showing (solid (100, 100) white) None None) =
     Inl (AttributeError, showing (solid (100, 100) white) None None) \<and>
   final_state (set_image plain_env None False (showing (solid (100, 100) white) None None)) =
     showing (solid (100, 100) white) None None"
  by (rule set_image_none_raises)

text \<open>
  C8. When the converted bitmap has the size of the rectangle, \<^verbatim>\<open>set_image\<close> hands it
  to the base class for display and leaves \<^verbatim>\<open>original_image\<close> as it was, so an
  original captured earlier stays, whatever bitmap it came from.
\<close>

theorem set_image_same_size_keeps_original:
  assumes "get_size (image_surface E new flag) = rect_size (rect (element w))"
  shows "set_image E (Some new) flag w =
           Inr (w\<lparr>element := UIElement_set_image E (image_surface E new flag) (element w)\<rparr>) \<and>
         original_image (final_state (set_image E (Some new) flag w)) = original_image w"
  using assms by (simp add: set_image_same_size final_state_def)

theorem set_image_same_size_keeps_original_witness:
  "original_image (final_state (set_image plain_env (Some (solid (100, 100) black)) True
      (showing (point_sample (solid (50, 50) white) (100, 100)) None (Some (solid (50, 50) white))))) =
     Some (solid (50, 50) white) \<and>
   image_surf (element (final_state (set_image plain_env (Some (solid (100, 100) black)) True
      (showing (point_sample (solid (50, 50) white) (100, 100)) None (Some (solid (50, 50) white)))))) =
     Some (solid (100, 100) black)"
proof -
  let ?w = "showing (point_sample (solid (50, 50) white) (100, 100)) None (Some (solid (50, 50) white))"
  have size: "get_size (image_surface plain_env (solid (100, 100) black) True) =
      rect_size (rect (element ?w))"
    by (simp add: image_surface_def showing_def rect_size_def point_sample_def)
  show ?thesis
    using set_image_same_size_keeps_original [OF size]
    by (simp add: final_state_def showing_def image_surface_def plain_set_image_def)
qed

text \<open>
  C2. For a bitmap that is not \<^verbatim>\<open>None\<close>, let \<open>surf\<close> be what \<^verbatim>\<open>convert_alpha\<close> makes
  of it, passed through \<^verbatim>\<open>premul_alpha_surface\<close> when the flag is false and left as it
  is when the flag is true. If the size of \<open>surf\<close> differs from the rectangle's,
  \<open>surf\<close> is stored as the original, and the bitmap displayed is what \<^verbatim>\<open>smoothscale\<close>
  makes of it at the rectangle's size; if the sizes agree, \<open>surf\<close> itself is displayed.
  The base class is taken to display the bitmap it is handed. The witness converts a
  bitmap that arrives with blue first and premultiplies it.
\<close>

theorem set_image_stores_and_scales:
  assumes "installs_image E"
    and "surf = (if flag then convert_alpha E new
                 else premul_alpha_surface (convert_alpha E new))"
    and "r = set_image E (Some new) flag w"
  shows "(get_size surf \<noteq> rect_size (rect (element w)) \<longrightarrow>
            original_image (final_state r) = Some surf \<and>
            (\<forall>scaled. smoothscale E surf (rect_size (rect (element w))) = Inr scaled \<longrightarrow>
               r = Inr \<lparr>element = UIElement_set_image E scaled (element w),
                        original_image = Some surf\<rparr> \<and>
               image_surf (element (final_state r)) = Some scaled)) \<and>
         (get_size surf = rect_size (rect (element w)) \<longrightarrow>
            r = Inr (w\<lparr>element := UIElement_set_image E surf (element w)\<rparr>) \<and>
            image_surf (element (final_state r)) = Some surf)"
proof -
  have surf: "surf = image_surface E new flag"
    using assms(2) by (simp add: image_surface_def)
  show ?thesis
  proof (cases "get_size surf = rect_size (rect (element w))")
    case True
    with assms(1,3) surf show ?thesis
      by (simp add: set_image_same_size installs_imageD)
  next
    case False
    with assms(1,3) surf show ?thesis
      by (auto simp add: set_image_other_size installs_imageD split: sum.splits)
  qed
qed

theorem set_image_stores_and_scales_witness:
  "original_image (final_state (set_image (plain_env\<lparr>convert_alpha := blue_first\<rparr>)
      (Some translucent) False \<lparr>element = fresh_element (1, 1), original_image = None\<rparr>)) =
     Some \<lparr>get_width = 2, get_height = 1, pixels = [(25, 50, 100, 128), (255, 255, 255, 255)]\<rparr> \<and>
   image_surf (element (final_state (set_image (plain_env\<lparr>convert_alpha := blue_first\<rparr>)
      (Some translucent) False \<lparr>element = fresh_element (1, 1), original_image = None\<rparr>))) =
     Some (point_sample
       \<lparr>get_width = 2, get_height = 1, pixels = [(25, 50, 100, 128), (255, 255, 255, 255)]\<rparr>
       (1, 1))"
proof -
  let ?E = "plain_env\<lparr>convert_alpha := blue_first\<rparr>"
  let ?w = "\<lparr>element = fresh_element (1, 1), original_image = None\<rparr> :: unit ui_image"
  let ?surf = "\<lparr>get_width = 2, get_height = 1,
      pixels = [(25, 50, 100, 128), (255, 255, 255, 255) :: pixel]\<rparr>"
  have installs: "installs_image ?E"
    using plain_installs_image by (simp add: installs_image_def)
  have surf: "?surf = (if False then convert_alpha ?E translucent
      else premul_alpha_surface (convert_alpha ?E translucent))"
    by (simp add: blue_first_translucent)
  have differ: "get_size ?surf \<noteq> rect_size (rect (element ?w))"
    by (simp add: get_size_def fresh_element_def rect_size_def)
  have scaled: "smoothscale ?E ?surf (rect_size (rect (element ?w))) =
      Inr (point_sample ?surf (1, 1))"
    by (simp add: fresh_element_def rect_size_def point_scale_def)
  show ?thesis
    using set_image_stores_and_scales [OF installs surf refl, of ?w] differ scaled
    by blast
qed

section \<open>Resizing\<close>

text \<open>
  C3. \<^verbatim>\<open>set_dimensions\<close> when, after the base class has resized the element, the
  rectangle's size differs from the displayed bitmap's and no original is held yet: the
  original becomes the base class's pre-clip bitmap when there is one and the displayed
  bitmap otherwise, and the bitmap then displayed is what \<^verbatim>\<open>smoothscale\<close> makes of that
  original at the rectangle's new size. The base class is taken to display the bitmap it
  is handed.
\<close>

theorem set_dimensions_captures_original:
  assumes "installs_image E"
    and "base = UIElement_set_dimensions E d (element w)"
    and "original_image w = None"
    and "image_surf base = Some img"
    and "rect_size (rect base) \<noteq> get_size img"
    and "src = (case pre_clipped_image base of Some pre \<Rightarrow> pre | None \<Rightarrow> img)"
    and "r = set_dimensions E d w"
  shows "original_image (final_state r) = Some src \<and>
         (\<forall>scaled. smoothscale E src (rect_size (rect base)) = Inr scaled \<longrightarrow>
            r = Inr \<lparr>element = UIElement_set_image E scaled base, original_image = Some src\<rparr> \<and>
            image_surf (element (final_state r)) = Some scaled)"
proof -
  have src: "src = (case original_image w of
                  Some orig \<Rightarrow> orig
                | None \<Rightarrow> (case pre_clipped_image (UIElement_set_dimensions E d (element w)) of
                             Some pre \<Rightarrow> pre | None \<Rightarrow> img))"
    using assms by simp
  have r: "r = (case smoothscale E src (rect_size (rect base)) of
              Inl err \<Rightarrow> Inl (err, \<lparr>element = base, original_image = Some src\<rparr>)
            | Inr scaled \<Rightarrow>
                Inr \<lparr>element = UIElement_set_image E scaled base, original_image = Some src\<rparr>)"
    unfolding assms(7) assms(2)
    using assms(4,5) [unfolded assms(2)] by (rule set_dimensions_other_size [OF _ _ src])
  have shown: "image_surf (UIElement_set_image E scaled base) = Some scaled" for scaled
    using assms(1) by (simp add: installs_image_def)
  show ?thesis
    by (cases "smoothscale E src (rect_size (rect base))")
      (simp_all add: r final_state_def shown)
qed

theorem set_dimensions_captures_original_witness:
  "set_dimensions plain_env (50, 50)
      (showing (solid (100, 100) white) (Some (solid (120, 120) black)) None) =
     Inr \<lparr>element = plain_set_image (point_sample (solid (120, 120) black) (50, 50))
                      (plain_set_dimensions (50, 50)
                         (element (showing (solid (100, 100) white) (Some (solid (120, 120) black)) None))),
          original_image = Some (solid (120, 120) black)\<rparr> \<and>
   original_image (final_state (set_dimensions plain_env (50, 50)
      (showing (solid (100, 100) white) None None))) = Some (solid (100, 100) white) \<and>
   image_surf (element (final_state (set_dimensions plain_env (50, 50)
      (showing (solid (100, 100) white) None None)))) =
     Some (point_sample (solid (100, 100) white) (50, 50))"
proof -
  let ?img = "solid (100, 100) white"
  let ?pre = "solid (120, 120) black"
  let ?w = "showing ?img (Some ?pre) None"
  let ?v = "showing ?img None None"
  let ?b = "UIElement_set_dimensions plain_env (50, 50) (element ?w)"
  let ?c = "UIElement_set_dimensions plain_env (50, 50) (element ?v)"
  have w: "original_image ?w = None" "image_surf ?b = Some ?img"
      "rect_size (rect ?b) \<noteq> get_size ?img"
      "?pre = (case pre_clipped_image ?b of Some pre \<Rightarrow> pre | None \<Rightarrow> ?img)"
      "smoothscale plain_env ?pre (rect_size (rect ?b)) = Inr (point_sample ?pre (50, 50))"
    by (simp_all add: showing_def plain_set_dimensions_def rect_size_def point_scale_def)
  have v: "original_image ?v = None" "image_surf ?c = Some ?img"
      "rect_size (rect ?c) \<noteq> get_size ?img"
      "?img = (case pre_clipped_image ?c of Some pre \<Rightarrow> pre | None \<Rightarrow> ?img)"
      "smoothscale plain_env ?img (rect_size (rect ?c)) = Inr (point_sample ?img (50, 50))"
    by (simp_all add: showing_def plain_set_dimensions_def rect_size_def point_scale_def)
  have "set_dimensions plain_env (50, 50) ?w =
          Inr \<lparr>element = UIElement_set_image plain_env (point_sample ?pre (50, 50)) ?b,
               original_image = Some ?pre\<rparr>"
    using set_dimensions_captures_original
      [OF plain_installs_image refl w(1) w(2) w(3) w(4) refl] w(5)
    by blast
  moreover have "original_image (final_state (set_dimensions plain_env (50, 50) ?v)) = Some ?img \<and>
      image_surf (element (final_state (set_dimensions plain_env (50, 50) ?v))) =
        Some (point_sample ?img (50, 50))"
    using set_dimensions_captures_original
      [OF plain_installs_image refl v(1) v(2) v(3) v(4) refl] v(5)
    by blast
  ultimately show ?thesis by simp
qed

text \<open>
  C10. Once \<^verbatim>\<open>original_image\<close> holds a bitmap it is never \<^verbatim>\<open>None\<close> again.
  \<^verbatim>\<open>set_dimensions\<close> leaves the bitmap it holds in place, whether it returns or
  raises; \<^verbatim>\<open>set_image\<close> either leaves it in place or, for a bitmap whose converted size
  differs from the rectangle's, puts the converted bitmap there; and so after any sequence
  of calls, up to its end or to the first raise, an original is held.
\<close>

theorem original_image_stays_set:
  assumes "original_image w = Some orig"
  shows "original_image (final_state (set_dimensions E d w)) = Some orig \<and>
         (original_image (final_state (set_image E new flag w)) = Some orig \<or>
          (\<exists>b. new = Some b \<and>
               get_size (image_surface E b flag) \<noteq> rect_size (rect (element w)) \<and>
               original_image (final_state (set_image E new flag w)) =
                 Some (image_surface E b flag))) \<and>
         original_image (final_state (run E cs w)) \<noteq> None"
  using assms set_dimensions_keeps_original [OF assms, of E d]
    set_image_original [of E new flag w] run_original_set [of w E cs]
  by simp

theorem original_image_stays_set_witness:
  "original_image (final_state (set_dimensions plain_env (50, 50)
      (showing (solid (100, 100) white) None (Some (solid (100, 100) white))))) =
     Some (solid (100, 100) white) \<and>
   original_image (final_state (run plain_env
      [Set_dimensions (50, 50), Set_image (Some (solid (50, 50) black)) True, Set_image None False]
      (showing (solid (100, 100) white) None (Some (solid (100, 100) white))))) \<noteq> None"
proof -
  have set: "original_image (showing (solid (100, 100) white) None (Some (solid (100, 100) white))) =
      Some (solid (100, 100) white)"
    by (simp add: showing_def)
  show ?thesis
    using original_image_stays_set [OF set, of plain_env "(50, 50)" None False
      "[Set_dimensions (50, 50), Set_image (Some (solid (50, 50) black)) True, Set_image None False]"]
    by blast
qed

section \<open>Construction\<close>

text \<open>
  C6, as the code has it. After \<^verbatim>\<open>__init__\<close> the original is \<^verbatim>\<open>None\<close> exactly when
  the converted source bitmap has the size of the rectangle; when the sizes differ,
  construction itself keeps the converted bitmap as the original. Whenever the original
  is \<^verbatim>\<open>None\<close>, after construction or later: a resize after which the rectangle has
  the size of the displayed bitmap leaves it \<^verbatim>\<open>None\<close>, and one after which the sizes
  differ captures it, from the pre-clip bitmap when there is one and from the displayed
  bitmap otherwise; a \<^verbatim>\<open>set_image\<close> whose converted bitmap has the size of the rectangle
  leaves it \<^verbatim>\<open>None\<close>, and one whose converted bitmap has another size stores that
  bitmap as the original.
\<close>

theorem init_original_image:
  assumes "surf = (if flag then convert_alpha E new
                   else premul_alpha_surface (convert_alpha E new))"
    and "r = UIImage_init E base (Some new) flag"
  shows "original_image (final_state r) =
           (if get_size surf = rect_size (rect base) then None else Some surf) \<and>
         (get_size surf = rect_size (rect base) \<longrightarrow>
            r = Inr \<lparr>element = UIElement_set_image E surf base, original_image = None\<rparr>) \<and>
         (\<forall>v d img. original_image v = None \<longrightarrow>
            image_surf (UIElement_set_dimensions E d (element v)) = Some img \<longrightarrow>
            original_image (final_state (set_dimensions E d v)) =
              (if rect_size (rect (UIElement_set_dimensions E d (element v))) = get_size img
               then None
               else Some (case pre_clipped_image (UIElement_set_dimensions E d (element v)) of
                            Some pre \<Rightarrow> pre | None \<Rightarrow> img))) \<and>
         (\<forall>v b f. original_image v = None \<longrightarrow>
            original_image (final_state (set_image E (Some b) f v)) =
              (if get_size (if f then convert_alpha E b
                            else premul_alpha_surface (convert_alpha E b)) =
                  rect_size (rect (element v))
               then None
               else Some (if f then convert_alpha E b
                          else premul_alpha_surface (convert_alpha E b))))"
proof -
  have surf: "surf = image_surface E new flag"
    using assms(1) by (simp add: image_surface_def)
  have init: "original_image (final_state r) =
           (if get_size surf = rect_size (rect base) then None else Some surf) \<and>
         (get_size surf = rect_size (rect base) \<longrightarrow>
            r = Inr \<lparr>element = UIElement_set_image E surf base, original_image = None\<rparr>)"
  proof (cases "get_size surf = rect_size (rect base)")
    case True
    with assms(2) surf show ?thesis
      by (simp add: UIImage_init_def set_image_same_size)
  next
    case False
    with assms(2) surf show ?thesis
      by (simp add: UIImage_init_def set_image_other_size split: sum.splits)
  qed
  have resize: "original_image (final_state (set_dimensions E d v)) =
      (if rect_size (rect (UIElement_set_dimensions E d (element v))) = get_size img then None
       else Some (case pre_clipped_image (UIElement_set_dimensions E d (element v)) of
                    Some pre \<Rightarrow> pre | None \<Rightarrow> img))"
    if none: "original_image v = None"
      and img: "image_surf (UIElement_set_dimensions E d (element v)) = Some img"
    for d img and v :: "'a ui_image"
  proof (cases "rect_size (rect (UIElement_set_dimensions E d (element v))) = get_size img")
    case True
    then show ?thesis using none by (simp add: set_dimensions_same_size [OF img])
  next
    case False
    have src: "(case pre_clipped_image (UIElement_set_dimensions E d (element v)) of
                  Some pre \<Rightarrow> pre | None \<Rightarrow> img) =
               (case original_image v of
                  Some orig \<Rightarrow> orig
                | None \<Rightarrow> (case pre_clipped_image (UIElement_set_dimensions E d (element v)) of
                             Some pre \<Rightarrow> pre | None \<Rightarrow> img))"
      using none by simp
    show ?thesis
      using False by (simp add: set_dimensions_other_size [OF img False src] split: sum.splits)
  qed
  have replace: "original_image (final_state (set_image E (Some b) f v)) =
      (if get_size (if f then convert_alpha E b else premul_alpha_surface (convert_alpha E b)) =
          rect_size (rect (element v))
       then None
       else Some (if f then convert_alpha E b else premul_alpha_surface (convert_alpha E b)))"
    if none: "original_image v = None" for b f and v :: "'a ui_image"
  proof -
    have s: "(if f then convert_alpha E b else premul_alpha_surface (convert_alpha E b)) =
        image_surface E b f"
      by (simp add: image_surface_def)
    show ?thesis
    proof (cases "get_size (image_surface E b f) = rect_size (rect (element v))")
      case True
      then show ?thesis using none unfolding s by (simp add: set_image_same_size)
    next
      case False
      then show ?thesis unfolding s by (simp add: set_image_other_size split: sum.splits)
    qed
  qed
  show ?thesis using init resize replace by blast
qed

text \<open>
  That no original is held after construction, whatever the bitmap and the rectangle, is
  not so: a bitmap of 100 by 100 in a rectangle of 50 by 50 is kept as the original.
\<close>

theorem init_retains_original:
  "\<not> isl (UIImage_init plain_env (fresh_element (50, 50)) (Some (solid (100, 100) white)) False) \<and>
   original_image (final_state
     (UIImage_init plain_env (fresh_element (50, 50)) (Some (solid (100, 100) white)) False)) =
     Some (premul_alpha_surface (solid (100, 100) white))"
  by (simp add: UIImage_init_def set_image_other_size image_surface_def fresh_element_def
      rect_size_def point_scale_def final_state_def get_size_premul)

theorem init_original_image_witness:
  "original_image (final_state
     (UIImage_init plain_env (fresh_element (50, 50)) (Some (solid (100, 100) white)) False)) =
     Some (premul_alpha_surface (solid (100, 100) white)) \<and>
   UIImage_init plain_env (fresh_element (100, 100)) (Some (solid (100, 100) white)) False =
     Inr (showing (premul_alpha_surface (solid (100, 100) white)) None None) \<and>
   original_image (final_state (set_dimensions plain_env (100, 100)
     (showing (premul_alpha_surface (solid (100, 100) white)) None None))) = None \<and>
   original_image (final_state (set_dimensions plain_env (50, 50)
     (showing (premul_alpha_surface (solid (100, 100) white)) None None))) =
     Some (premul_alpha_surface (solid (100, 100) white)) \<and>
   original_image (final_state (set_image plain_env (Some (solid (50, 50) black)) True
     (showing (premul_alpha_surface (solid (100, 100) white)) None None))) =
     Some (solid (50, 50) black)"
proof -
  let ?new = "solid (100, 100) white"
  let ?P = "premul_alpha_surface ?new"
  let ?v = "showing ?P None None"
  have surf: "?P = (if False then convert_alpha plain_env ?new
      else premul_alpha_surface (convert_alpha plain_env ?new))"
    by simp
  note small = init_original_image [OF surf refl, where base = "fresh_element (50, 50)"]
  note same = init_original_image [OF surf refl, where base = "fresh_element (100, 100)"]
  have "get_size ?P \<noteq> rect_size (rect (fresh_element (50, 50)))"
    by (simp add: get_size_premul fresh_element_def rect_size_def)
  with small have a: "original_image (final_state
      (UIImage_init plain_env (fresh_element (50, 50)) (Some ?new) False)) = Some ?P"
    by simp
  have "get_size ?P = rect_size (rect (fresh_element (100, 100)))"
    by (simp add: get_size_premul fresh_element_def rect_size_def)
  with same have "UIImage_init plain_env (fresh_element (100, 100)) (Some ?new) False =
      Inr \<lparr>element = UIElement_set_image plain_env ?P (fresh_element (100, 100)),
           original_image = None\<rparr>"
    by blast
  moreover have "\<lparr>element = UIElement_set_image plain_env ?P (fresh_element (100, 100)),
      original_image = None\<rparr> = ?v"
    by (simp add: showing_def plain_set_image_def fresh_element_def premul_alpha_surface_def
        solid_def)
  ultimately have b: "UIImage_init plain_env (fresh_element (100, 100)) (Some ?new) False = Inr ?v"
    by simp
  have none: "original_image ?v = None"
    by (simp add: showing_def)
  have shown: "image_surf (UIElement_set_dimensions plain_env d (element ?v)) = Some ?P" for d
    by (simp add: showing_def plain_set_dimensions_def)
  have rect: "rect_size (rect (UIElement_set_dimensions plain_env d (element ?v))) = d" for d
    by (simp add: plain_set_dimensions_def rect_size_def)
  have pre: "pre_clipped_image (UIElement_set_dimensions plain_env d (element ?v)) = None" for d
    by (simp add: showing_def plain_set_dimensions_def)
  from same none shown [of "(100, 100)"]
  have "original_image (final_state (set_dimensions plain_env (100, 100) ?v)) =
      (if rect_size (rect (UIElement_set_dimensions plain_env (100, 100) (element ?v))) =
          get_size ?P then None
       else Some (case pre_clipped_image
                         (UIElement_set_dimensions plain_env (100, 100) (element ?v)) of
                    Some pre \<Rightarrow> pre | None \<Rightarrow> ?P))"
    by blast
  then have c: "original_image (final_state (set_dimensions plain_env (100, 100) ?v)) = None"
    by (simp add: rect get_size_premul del: plain_env_simps)
  from same none shown [of "(50, 50)"]
  have "original_image (final_state (set_dimensions plain_env (50, 50) ?v)) =
      (if rect_size (rect (UIElement_set_dimensions plain_env (50, 50) (element ?v))) =
          get_size ?P then None
       else Some (case pre_clipped_image
                         (UIElement_set_dimensions plain_env (50, 50) (element ?v)) of
                    Some pre \<Rightarrow> pre | None \<Rightarrow> ?P))"
    by blast
  then have d: "original_image (final_state (set_dimensions plain_env (50, 50) ?v)) = Some ?P"
    by (simp add: rect pre get_size_premul del: plain_env_simps)
  have own: "rect_size (rect (element ?v)) = (100, 100)"
    by (simp add: showing_def rect_size_def premul_alpha_surface_def solid_def)
  from same none
  have "original_image (final_state (set_image plain_env (Some (solid (50, 50) black)) True ?v)) =
      (if get_size (if True then convert_alpha plain_env (solid (50, 50) black)
                    else premul_alpha_surface (convert_alpha plain_env (solid (50, 50) black))) =
          rect_size (rect (element ?v))
       then None
       else Some (if True then convert_alpha plain_env (solid (50, 50) black)
                  else premul_alpha_surface (convert_alpha plain_env (solid (50, 50) black))))"
    by blast
  then have e: "original_image (final_state
      (set_image plain_env (Some (solid (50, 50) black)) True ?v)) = Some (solid (50, 50) black)"
    by (simp add: own)
  show ?thesis using a b c d e by blast
qed

section \<open>Resizing again\<close>

text \<open>
  C4. After any sequence of resizes of a widget that holds an original, a resize that
  has to rescale takes the original as the source of \<^verbatim>\<open>smoothscale\<close>, and the
  original stays the same bitmap: the displayed bitmap is the original scaled to the
  new size, never a rescale of what was displayed before. The witness is the scenario of
  an original of 100 by 100 resized to 50 by 50 and then to 200 by 200, and the same
  with a bitmap of two pixels, where scaling the intermediate bitmap would give other
  pixels. The base class is taken to display the bitmap it is handed.
\<close>

theorem rescale_from_original:
  assumes "installs_image E"
    and "original_image w = Some orig"
    and "run E (map Set_dimensions ds) w = Inr w1"
    and "base = UIElement_set_dimensions E d (element w1)"
    and "image_surf base = Some img"
    and "rect_size (rect base) \<noteq> get_size img"
    and "r = set_dimensions E d w1"
  shows "original_image (final_state r) = Some orig \<and>
         r = (case smoothscale E orig (rect_size (rect base)) of
                Inl err \<Rightarrow> Inl (err, \<lparr>element = base, original_image = Some orig\<rparr>)
              | Inr scaled \<Rightarrow>
                  Inr \<lparr>element = UIElement_set_image E scaled base,
                       original_image = Some orig\<rparr>) \<and>
         (\<forall>scaled. smoothscale E orig (rect_size (rect base)) = Inr scaled \<longrightarrow>
            image_surf (element (final_state r)) = Some scaled)"
proof -
  have orig: "original_image w1 = Some orig"
    using assms(2,3) by (rule run_resizes_keep_original)
  then have src: "orig = (case original_image w1 of
                  Some orig \<Rightarrow> orig
                | None \<Rightarrow> (case pre_clipped_image (UIElement_set_dimensions E d (element w1)) of
                             Some pre \<Rightarrow> pre | None \<Rightarrow> img))"
    by simp
  have r: "r = (case smoothscale E orig (rect_size (rect base)) of
                Inl err \<Rightarrow> Inl (err, \<lparr>element = base, original_image = Some orig\<rparr>)
              | Inr scaled \<Rightarrow>
                  Inr \<lparr>element = UIElement_set_image E scaled base,
                       original_image = Some orig\<rparr>)"
    unfolding assms(7) assms(4)
    using assms(5,6) [unfolded assms(4)] by (rule set_dimensions_other_size [OF _ _ src])
  have shown: "image_surf (UIElement_set_image E scaled base) = Some scaled" for scaled
    using assms(1) by (simp add: installs_image_def)
  have "original_image (final_state r) = Some orig"
    unfolding assms(7) using orig by (rule set_dimensions_keeps_original)
  moreover have "\<forall>scaled. smoothscale E orig (rect_size (rect base)) = Inr scaled \<longrightarrow>
            image_surf (element (final_state r)) = Some scaled"
    by (simp add: r shown)
  ultimately show ?thesis using r by blast
qed



theorem rescale_from_original_witness:
  "image_surf (element (final_state (set_dimensions plain_env (200, 200)
      (showing (point_sample (solid (100, 100) white) (50, 50)) None (Some (solid (100, 100) white)))))) =
     Some (point_sample (solid (100, 100) white) (200, 200)) \<and>
   run plain_env (map Set_dimensions [(50, 50)])
      (showing (solid (100, 100) white) None (Some (solid (100, 100) white))) =
     Inr (showing (point_sample (solid (100, 100) white) (50, 50)) None (Some (solid (100, 100) white))) \<and>
   image_surf (element (final_state (set_dimensions plain_env (2, 1)
      (showing (point_sample two_tone (1, 1)) None (Some two_tone))))) =
     Some (point_sample two_tone (2, 1)) \<and>
   run plain_env (map Set_dimensions [(1, 1)]) (showing two_tone None (Some two_tone)) =
     Inr (showing (point_sample two_tone (1, 1)) None (Some two_tone)) \<and>
   pixels (point_sample two_tone (2, 1)) = [white, black] \<and>
   pixels (point_sample (point_sample two_tone (1, 1)) (2, 1)) = [white, white]"
proof -
  have scenario: "image_surf (element (final_state (set_dimensions plain_env d2
        (showing (point_sample orig d1) None (Some orig))))) = Some (point_sample orig d2) \<and>
      run plain_env (map Set_dimensions [d1]) (showing orig None (Some orig)) =
        Inr (showing (point_sample orig d1) None (Some orig))"
    if "get_size orig \<noteq> d1" "d1 \<noteq> d2" "0 \<le> fst d1" "0 \<le> snd d1" "0 \<le> fst d2" "0 \<le> snd d2"
    for orig d1 d2
  proof -
    let ?w = "showing orig None (Some orig)"
    let ?w1 = "showing (point_sample orig d1) None (Some orig)"
    let ?base = "UIElement_set_dimensions plain_env d2 (element ?w1)"
    have orig: "original_image ?w = Some orig"
      by (simp add: showing_def)
    have "set_dimensions plain_env d1 ?w = Inr ?w1"
      using that by (simp add: plain_resize plain_resized_shows)
    then have run: "run plain_env (map Set_dimensions [d1]) ?w = Inr ?w1"
      by simp
    have img: "image_surf ?base = Some (point_sample orig d1)"
      by (simp add: plain_set_dimensions_def showing_def)
    have differ: "rect_size (rect ?base) \<noteq> get_size (point_sample orig d1)"
      using that by (simp add: plain_set_dimensions_def rect_size_def)
    have scaled: "smoothscale plain_env orig (rect_size (rect ?base)) = Inr (point_sample orig d2)"
      using that by (simp add: plain_set_dimensions_def rect_size_def point_scale_def)
    have "image_surf (element (final_state (set_dimensions plain_env d2 ?w1))) =
        Some (point_sample orig d2)"
      using rescale_from_original [OF plain_installs_image orig run refl img differ refl] scaled
      by blast
    then show ?thesis using run by simp
  qed
  have big: "image_surf (element (final_state (set_dimensions plain_env (200, 200)
        (showing (point_sample (solid (100, 100) white) (50, 50)) None
           (Some (solid (100, 100) white)))))) =
        Some (point_sample (solid (100, 100) white) (200, 200)) \<and>
      run plain_env (map Set_dimensions [(50, 50)])
        (showing (solid (100, 100) white) None (Some (solid (100, 100) white))) =
        Inr (showing (point_sample (solid (100, 100) white) (50, 50)) None
               (Some (solid (100, 100) white)))"
    by (rule scenario) simp_all
  have small: "image_surf (element (final_state (set_dimensions plain_env (2, 1)
        (showing (point_sample two_tone (1, 1)) None (Some two_tone))))) =
        Some (point_sample two_tone (2, 1)) \<and>
      run plain_env (map Set_dimensions [(1, 1)]) (showing two_tone None (Some two_tone)) =
        Inr (showing (point_sample two_tone (1, 1)) None (Some two_tone))"
    by (rule scenario) (simp_all add: two_tone_def get_size_def)
  show ?thesis using big small two_tone_pixels by blast
qed

text \<open>
  C7. A resize to the size that the displayed bitmap already has returns with the
  base class's resize as its only effect: whatever scaler and whatever \<^verbatim>\<open>_set_image\<close>
  are put into the environment, even ones that fail, the result is the same, so neither
  is called; the displayed bitmap and the original are those of before. Hence of two
  resizes to the same size in a row the second one does not rescale. The base class's
  resize is taken to set the rectangle to the size asked for and to leave the displayed
  bitmap alone.
\<close>

theorem set_dimensions_same_size_is_noop:
  assumes "resizes_rect E"
  shows "(\<forall>img. image_surf (element w) = Some img \<longrightarrow> get_size img = d \<longrightarrow>
            (\<forall>sc si. set_dimensions (E\<lparr>smoothscale := sc, UIElement_set_image := si\<rparr>) d w =
                     Inr (w\<lparr>element := UIElement_set_dimensions E d (element w)\<rparr>)) \<and>
            set_dimensions E d w = Inr (w\<lparr>element := UIElement_set_dimensions E d (element w)\<rparr>) \<and>
            image_surf (element (final_state (set_dimensions E d w))) = Some img \<and>
            original_image (final_state (set_dimensions E d w)) = original_image w) \<and>
         (scales_to_size E \<longrightarrow> installs_image E \<longrightarrow>
            (\<forall>w1. set_dimensions E d w = Inr w1 \<longrightarrow>
               set_dimensions E d w1 =
                 Inr (w1\<lparr>element := UIElement_set_dimensions E d (element w1)\<rparr>) \<and>
               image_surf (element (final_state (set_dimensions E d w1))) =
                 image_surf (element w1) \<and>
               original_image (final_state (set_dimensions E d w1)) = original_image w1))"
proof -
  have once: "set_dimensions E d v = Inr (v\<lparr>element := UIElement_set_dimensions E d (element v)\<rparr>) \<and>
      image_surf (element (final_state (set_dimensions E d v))) = Some img \<and>
      original_image (final_state (set_dimensions E d v)) = original_image v"
    if "image_surf (element v) = Some img" "get_size img = d" for v :: "'a ui_image" and img
  proof -
    have "set_dimensions (E\<lparr>smoothscale := smoothscale E,
        UIElement_set_image := UIElement_set_image E\<rparr>) d v =
        Inr (v\<lparr>element := UIElement_set_dimensions E d (element v)\<rparr>)"
      using assms that by (rule set_dimensions_matching)
    then have "set_dimensions E d v = Inr (v\<lparr>element := UIElement_set_dimensions E d (element v)\<rparr>)"
      by simp
    then show ?thesis using assms that(1) by (simp add: resizes_rectD)
  qed
  have twice: "set_dimensions E d w1 =
        Inr (w1\<lparr>element := UIElement_set_dimensions E d (element w1)\<rparr>) \<and>
      image_surf (element (final_state (set_dimensions E d w1))) = image_surf (element w1) \<and>
      original_image (final_state (set_dimensions E d w1)) = original_image w1"
    if "scales_to_size E" "installs_image E" "set_dimensions E d w = Inr w1" for w1
  proof -
    have "displayed_fits w1" using that by (rule set_dimensions_fits)
    moreover have "rect_size (rect (element w1)) = d"
      using assms that(2,3) by (rule set_dimensions_rect)
    ultimately obtain img where "image_surf (element w1) = Some img" "get_size img = d"
      by (auto simp add: displayed_fits_def split: option.splits)
    then show ?thesis using once [of w1 img] by metis
  qed
  show ?thesis
    using once [of w] twice set_dimensions_matching [OF assms, of w _ d] by blast
qed

theorem set_dimensions_same_size_is_noop_witness:
  "set_dimensions (plain_env\<lparr>smoothscale := (\<lambda>s d. Inl ValueError),
        UIElement_set_image := (\<lambda>t e. e)\<rparr>) (50, 50)
      (showing (solid (50, 50) white) None None) =
     Inr ((showing (solid (50, 50) white) None None)
          \<lparr>element := UIElement_set_dimensions plain_env (50, 50)
                        (element (showing (solid (50, 50) white) None None))\<rparr>) \<and>
   image_surf (element (final_state (set_dimensions plain_env (50, 50)
      (showing (solid (50, 50) white) None None)))) = Some (solid (50, 50) white) \<and>
   original_image (final_state (set_dimensions plain_env (50, 50)
      (showing (solid (50, 50) white) None None))) = None \<and>
   set_dimensions plain_env (50, 50) (showing (solid (100, 100) white) None None) =
     Inr (showing (point_sample (solid (100, 100) white) (50, 50)) None
            (Some (solid (100, 100) white))) \<and>
   image_surf (element (final_state (set_dimensions plain_env (50, 50)
      (showing (point_sample (solid (100, 100) white) (50, 50)) None
         (Some (solid (100, 100) white)))))) =
     Some (point_sample (solid (100, 100) white) (50, 50))"
proof -
  let ?v = "showing (solid (50, 50) white) None None"
  let ?w = "showing (solid (100, 100) white) None None"
  let ?w1 = "showing (point_sample (solid (100, 100) white) (50, 50)) None
      (Some (solid (100, 100) white))"
  have v: "image_surf (element ?v) = Some (solid (50, 50) white)"
    by (simp add: showing_def)
  have first: "set_dimensions plain_env (50, 50) ?w = Inr ?w1"
    by (simp add: plain_resize plain_resized_shows)
  have w1: "image_surf (element ?w1) = Some (point_sample (solid (100, 100) white) (50, 50))"
    by (simp add: showing_def)
  have "set_dimensions (plain_env\<lparr>smoothscale := (\<lambda>s d. Inl ValueError),
        UIElement_set_image := (\<lambda>t e. e)\<rparr>) (50, 50) ?v =
      Inr (?v\<lparr>element := UIElement_set_dimensions plain_env (50, 50) (element ?v)\<rparr>) \<and>
    image_surf (element (final_state (set_dimensions plain_env (50, 50) ?v))) =
      Some (solid (50, 50) white) \<and>
    original_image (final_state (set_dimensions plain_env (50, 50) ?v)) = original_image ?v"
    using set_dimensions_same_size_is_noop [OF plain_resizes_rect, of ?v "(50, 50)"] v
      get_size_solid [of "(50, 50)" white]
    by blast
  moreover have "image_surf (element (final_state (set_dimensions plain_env (50, 50) ?w1))) =
      image_surf (element ?w1)"
    using set_dimensions_same_size_is_noop [OF plain_resizes_rect, of ?w "(50, 50)"]
      plain_scales_to_size plain_installs_image first
    by blast
  moreover have "original_image ?v = None"
    by (simp add: showing_def)
  ultimately show ?thesis using first w1 by simp
qed

section \<open>The pixels that are stored\<close>

text \<open>
  C5. \<^verbatim>\<open>set_image\<close> with \<^verbatim>\<open>image_is_alpha_premultiplied\<close> false: the bitmap it goes on
  with has the size of the converted bitmap, and where the converted bitmap has the
  pixel (R,G,B,A) it has (R*A/255, G*A/255, B*A/255, A), each quotient rounded down, so
  within one of the exact value. With the flag true it goes on with the converted bitmap
  as it is. That bitmap is what \<^verbatim>\<open>set_image\<close> stores: as the original when its size
  differs from the rectangle's, and handed to the base class for display when it does
  not. The premultiplication itself is the one modelled from the spec.
\<close>

theorem set_image_premultiplies:
  assumes "conv = convert_alpha E new"
  shows "get_size (image_surface E new False) = get_size conv \<and>
         length (pixels (image_surface E new False)) = length (pixels conv) \<and>
         (\<forall>i r g b a. i < length (pixels conv) \<longrightarrow> pixels conv ! i = (r, g, b, a) \<longrightarrow>
            (\<exists>r' g' b'. pixels (image_surface E new False) ! i = (r', g', b', a) \<and>
               unat r' = unat r * unat a div 255 \<and>
               unat g' = unat g * unat a div 255 \<and>
               unat b' = unat b * unat a div 255)) \<and>
         image_surface E new True = conv \<and>
         (\<forall>flag w. get_size (image_surface E new flag) \<noteq> rect_size (rect (element w)) \<longrightarrow>
            original_image (final_state (set_image E (Some new) flag w)) =
              Some (image_surface E new flag)) \<and>
         (\<forall>flag w. get_size (image_surface E new flag) = rect_size (rect (element w)) \<longrightarrow>
            set_image E (Some new) flag w =
              Inr (w\<lparr>element := UIElement_set_image E (image_surface E new flag) (element w)\<rparr>))"
proof -
  have surf: "image_surface E new False = premul_alpha_surface conv"
    using assms by (simp add: image_surface_def)
  have pixel: "\<exists>r' g' b'. pixels (image_surface E new False) ! i = (r', g', b', a) \<and>
               unat r' = unat r * unat a div 255 \<and>
               unat g' = unat g * unat a div 255 \<and>
               unat b' = unat b * unat a div 255"
    if "i < length (pixels conv)" "pixels conv ! i = (r, g, b, a)" for i r g b a
    using that by (simp add: surf pixels_premul premul_pixel_def unat_premul_channel)
  have stored: "original_image (final_state (set_image E (Some new) flag w)) =
              Some (image_surface E new flag)"
    if "get_size (image_surface E new flag) \<noteq> rect_size (rect (element w))"
    for flag and w :: "'a ui_image"
    using that by (simp add: set_image_other_size split: sum.splits)
  have "image_surface E new True = conv"
    using assms by (simp add: image_surface_def)
  then show ?thesis
    using pixel stored set_image_same_size [of E new]
    by (simp add: surf get_size_premul pixels_premul)
qed

theorem set_image_premultiplies_witness:
  "pixels (image_surface plain_env translucent False) ! 0 = (100, 50, 25, 128) \<and>
   image_surface plain_env translucent True = translucent"
proof -
  have conv: "translucent = convert_alpha plain_env translucent"
    by simp
  have first: "0 < length (pixels translucent)" "pixels translucent ! 0 = (200, 100, 50, 128)"
    by (simp_all add: translucent_def)
  from set_image_premultiplies [OF conv] first
  obtain r' g' b' where px: "pixels (image_surface plain_env translucent False) ! 0 = (r', g', b', 128)"
    and r: "unat r' = unat (200 :: 8 word) * unat (128 :: 8 word) div 255"
    and g: "unat g' = unat (100 :: 8 word) * unat (128 :: 8 word) div 255"
    and b: "unat b' = unat (50 :: 8 word) * unat (128 :: 8 word) div 255"
    by blast
  have "r' = 100" using byte_of_unat [OF r] by simp
  moreover have "g' = 50" using byte_of_unat [OF g] by simp
  moreover have "b' = 25" using byte_of_unat [OF b] by simp
  ultimately show ?thesis
    using px set_image_premultiplies [OF conv] by simp
qed

section \<open>The displayed bitmap fits the rectangle\<close>

text \<open>
  C1, as the code has it. After each call of a sequence of calls to \<^verbatim>\<open>set_image\<close> and
  \<^verbatim>\<open>set_dimensions\<close> that returns, that is after the first \<open>n\<close> calls for every \<open>n\<close>
  from one to the length of the sequence, the displayed bitmap has the size of the
  rectangle, whatever the widget and the calls. It is premultiplied when the bitmaps the
  widget held before the sequence were, and the flag \<^verbatim>\<open>image_is_alpha_premultiplied\<close> is
  set only for bitmaps that are premultiplied: \<^verbatim>\<open>set_image\<close> takes the caller's word
  for it. In particular a \<^verbatim>\<open>set_image\<close> followed by a \<^verbatim>\<open>set_dimensions\<close> to the size
  \<open>d\<close> leaves a displayed bitmap of size \<open>d\<close>. The scaler is taken to return a bitmap of
  the size asked for, premultiplied when its source is; the base class to display the
  bitmap it is handed, to keep its bitmaps premultiplied and, for the last part, to set
  the rectangle to the size asked for.
\<close>

theorem displayed_bitmap_invariant:
  assumes "scales_to_size E" and "installs_image E"
    and "0 < n" and "n \<le> length cs"
    and "run E (take n cs) w = Inr w'"
  shows "displayed_fits w' \<and>
         (scale_keeps_premultiplied E \<longrightarrow> base_keeps_premultiplied E \<longrightarrow>
          all_premultiplied w \<longrightarrow> (\<forall>c\<in>set cs. truthful E c) \<longrightarrow>
            displayed_premultiplied w') \<and>
         (resizes_rect E \<longrightarrow>
            (\<forall>new flag d v v1 v2. set_image E (Some new) flag v = Inr v1 \<longrightarrow>
               set_dimensions E d v1 = Inr v2 \<longrightarrow>
               (\<exists>img. image_surf (element v2) = Some img \<and> get_size img = d)))"
proof -
  have some: "take n cs \<noteq> []"
    using assms(3,4) by auto
  with assms(1,2) have fits: "displayed_fits w'"
    using assms(5) by (rule run_fits)
  have pre: "displayed_premultiplied w'"
    if "scale_keeps_premultiplied E" "base_keeps_premultiplied E" "all_premultiplied w"
      "\<forall>c\<in>set cs. truthful E c"
  proof -
    have calls: "\<forall>c\<in>set (take n cs). truthful E c"
      using that(4) by (meson in_set_takeD)
    have "all_premultiplied w' \<and> (take n cs \<noteq> [] \<longrightarrow> displayed_fits w')"
      using assms(1) that(1) assms(2) that(2,3) calls assms(5) by (rule run_invariant)
    with fits show ?thesis by (simp add: displayed_premultipliedI)
  qed
  have sized: "\<exists>img. image_surf (element v2) = Some img \<and> get_size img = d"
    if "resizes_rect E" "set_dimensions E d v1 = Inr v2" for d and v1 v2 :: "'a ui_image"
  proof -
    have "displayed_fits v2" using assms(1,2) that(2) by (rule set_dimensions_fits)
    moreover have "rect_size (rect (element v2)) = d"
      using that(1) assms(2) that(2) by (rule set_dimensions_rect)
    ultimately show ?thesis
      by (auto simp add: displayed_fits_def split: option.splits)
  qed
  show ?thesis using fits pre sized by blast
qed

text \<open>
  That the displayed bitmap is premultiplied after every call is not so: a bitmap with
  the pixel (200, 100, 50, 128), passed with the flag set, is displayed as it is.
\<close>

theorem mislabelled_bitmap_displayed:
  "\<not> isl (set_image plain_env (Some translucent) True (showing (solid (2, 1) white) None None)) \<and>
   displayed_fits (final_state
     (set_image plain_env (Some translucent) True (showing (solid (2, 1) white) None None))) \<and>
   \<not> displayed_premultiplied (final_state
     (set_image plain_env (Some translucent) True (showing (solid (2, 1) white) None None)))"
proof -
  let ?w = "showing (solid (2, 1) white) None None"
  have surf: "image_surface plain_env translucent True = translucent"
    by (simp add: image_surface_def)
  have two: "get_size translucent = (2, 1)"
    by (simp add: translucent_def get_size_def)
  have rect: "rect_size (rect (element ?w)) = (2, 1)"
    by (simp add: showing_def rect_size_def solid_def)
  have "set_image plain_env (Some translucent) True ?w =
      Inr (?w\<lparr>element := UIElement_set_image plain_env
        (image_surface plain_env translucent True) (element ?w)\<rparr>)"
    by (rule set_image_same_size) (simp only: surf two rect)
  then have res: "set_image plain_env (Some translucent) True ?w =
      Inr (?w\<lparr>element := plain_set_image translucent (element ?w)\<rparr>)"
    by (simp add: surf)
  have "\<not> (200 :: 8 word) \<le> 128"
    by simp
  then have bad: "\<not> is_premultiplied translucent"
    by (simp add: is_premultiplied_def translucent_def premultiplied_pixel_def)
  have shown: "image_surf (element (?w\<lparr>element := plain_set_image translucent (element ?w)\<rparr>)) =
      Some translucent"
    "rect_size (rect (element (?w\<lparr>element := plain_set_image translucent (element ?w)\<rparr>))) =
      (2, 1)"
    using rect by (simp_all add: plain_set_image_def)
  show ?thesis
    unfolding res
    by (simp only: final_state_simps displayed_fits_def displayed_premultiplied_def shown
        option.case two bad sum.disc simp_thms)
qed

theorem displayed_bitmap_invariant_witness:
  "displayed_fits (showing (point_sample (premul_alpha_surface (solid (100, 100) translucent_red)) (50, 50))
      None (Some (premul_alpha_surface (solid (100, 100) translucent_red)))) \<and>
   displayed_premultiplied (showing
      (point_sample (premul_alpha_surface (solid (100, 100) translucent_red)) (50, 50))
      None (Some (premul_alpha_surface (solid (100, 100) translucent_red)))) \<and>
   run plain_env [Set_image (Some (solid (100, 100) translucent_red)) False, Set_dimensions (50, 50)]
      \<lparr>element = fresh_element (100, 100), original_image = None\<rparr> =
     Inr (showing (point_sample (premul_alpha_surface (solid (100, 100) translucent_red)) (50, 50))
            None (Some (premul_alpha_surface (solid (100, 100) translucent_red))))"
proof -
  let ?new = "solid (100, 100) translucent_red"
  let ?cs = "[Set_image (Some ?new) False, Set_dimensions (50, 50)]"
  let ?w = "\<lparr>element = fresh_element (100, 100), original_image = None\<rparr> :: unit ui_image"
  let ?w' = "showing (point_sample (premul_alpha_surface ?new) (50, 50)) None
      (Some (premul_alpha_surface ?new))"
  have surf: "image_surface plain_env ?new False = premul_alpha_surface ?new"
    by (simp add: image_surface_def)
  have first: "set_image plain_env (Some ?new) False ?w =
      Inr (showing (premul_alpha_surface ?new) None None)"
    using plain_replace_same_size [of ?new False "(100, 100)"]
    by (simp add: surf get_size_premul)
  have second: "set_dimensions plain_env (50, 50) (showing (premul_alpha_surface ?new) None None) =
      Inr ?w'"
    by (simp add: plain_resize plain_resized_shows get_size_premul)
  have run: "run plain_env (take 2 ?cs) ?w = Inr ?w'"
    by (simp add: first second)
  have start: "all_premultiplied ?w"
    by (simp add: all_premultiplied_def element_premultiplied_def opt_premultiplied_def
        fresh_element_def)
  have truthful: "\<forall>c\<in>set ?cs. truthful plain_env c"
    by simp
  have "displayed_fits ?w' \<and> displayed_premultiplied ?w'"
    using displayed_bitmap_invariant [OF plain_scales_to_size plain_installs_image _ _ run]
      plain_scale_keeps_premultiplied plain_base_keeps_premultiplied start truthful
    by fastforce
  then show ?thesis using run by simp
qed

end
